theory Spec2Isabelle
  imports Main "HOL-Library.Word"
begin

section \<open>Error codes\<close>

text \<open>
  \<^verbatim>\<open>enum class config_error\<close> (cfg.hpp, lines 46-52), and the two values of
  \<^verbatim>\<open>std::errc\<close> that a numeric conversion reports, plus the one a formatting into a
  too small buffer reports. A \<^verbatim>\<open>std::error_code\<close> is a value of either family;
  a clear error code (the default constructed one, which tests false) is \<open>None\<close>.
\<close>

datatype config_error =
    unknown_option
  | option_does_not_accept_argument
  | missing_argument_for_option
  | option_not_specified

datatype errc = invalid_argument | result_out_of_range | value_too_large

datatype error_code = Config config_error | Std errc

text \<open>
  How a call ends when it does not return: an exception (\<^verbatim>\<open>std::system_error\<close>,
  \<^verbatim>\<open>std::bad_any_cast\<close>), a failed \<^verbatim>\<open>assert\<close>, or undefined behaviour (reading a
  disengaged \<^verbatim>\<open>std::optional\<close>, reading an uninitialised variable).
\<close>

datatype failure =
    System_error error_code
  | Bad_any_cast
  | Assertion_failed
  | Undefined_behaviour

section \<open>Type conversion layer\<close>

text \<open>
  The value types of the option traits (lines 528-582). An arithmetic type is given by its
  signedness and its width in bits; the floating point types are outside this model.
  \<open>T_string\<close> stands for every string-like \<^verbatim>\<open>T\<close>, whose \<^verbatim>\<open>value_type\<close> is
  \<^verbatim>\<open>std::string\<close>.
\<close>

datatype int_type = Integral bool nat

datatype value_type = T_arithmetic int_type | T_path | T_string

text \<open>
  A stored value. The number of an arithmetic value is \<open>None\<close> when the variable it was
  copied from was never written (line 535 declares \<^verbatim>\<open>value_type value;\<close> without an
  initialiser).
\<close>

datatype val = V_arithmetic int_type "int option" | V_path string | V_string string

fun type_of :: "val \<Rightarrow> value_type" where
  "type_of (V_arithmetic T n) = T_arithmetic T"
| "type_of (V_path p) = T_path"
| "type_of (V_string s) = T_string"

fun min_of :: "int_type \<Rightarrow> int" where
  "min_of (Integral sg bits) = (if sg then - (2 ^ (bits - 1)) else 0)"

fun max_of :: "int_type \<Rightarrow> int" where
  "max_of (Integral sg bits) = (if sg then 2 ^ (bits - 1) - 1 else 2 ^ bits - 1)"

fun is_signed :: "int_type \<Rightarrow> bool" where
  "is_signed (Integral sg bits) = sg"

definition is_digit :: "char \<Rightarrow> bool" where
  "is_digit c = (48 \<le> (of_char c :: nat) \<and> (of_char c :: nat) \<le> 57)"

definition digit_val :: "char \<Rightarrow> int" where
  "digit_val c = int (of_char c) - 48"

definition digit_char :: "int \<Rightarrow> char" where
  "digit_char d = char_of (48 + nat d)"

text \<open>The number a run of decimal digits denotes, most significant digit first.\<close>

fun digits_value :: "int \<Rightarrow> string \<Rightarrow> int" where
  "digits_value acc [] = acc"
| "digits_value acc (c # cs) = digits_value (10 * acc + digit_val c) cs"

text \<open>
  Modelled from the spec: \<^verbatim>\<open>charconv<T>::from_chars\<close> of \<^verbatim>\<open>cfg/utilities.hpp\<close>, which is
  not among the sources. The spec has it as a locale-independent, exact numeric text
  conversion that fails on a malformed or out-of-range token; for an integer type this is
  \<^verbatim>\<open>std::from_chars\<close> in base 10: an optional minus sign (signed types only) and the
  longest run of decimal digits after it; no digit gives \<^verbatim>\<open>invalid_argument\<close>, a number
  outside the type gives \<^verbatim>\<open>result_out_of_range\<close>, and on either failure the output
  variable keeps the content it had. The third argument is that content on entry; the
  result is the error condition (\<open>None\<close> for success) and the content on exit.
\<close>

definition from_chars :: "int_type \<Rightarrow> string \<Rightarrow> int option \<Rightarrow> errc option \<times> int option" where
  "from_chars T s d =
     (let neg = (is_signed T \<and> s \<noteq> [] \<and> hd s = CHR ''-'');
          ds = takeWhile is_digit (if neg then tl s else s);
          n = (if neg then - digits_value 0 ds else digits_value 0 ds)
      in if ds = [] then (Some invalid_argument, d)
         else if n < min_of T \<or> max_of T < n then (Some result_out_of_range, d)
         else (None, Some n))"

text \<open>The decimal digits of a natural number, without leading zeros.\<close>

function digits_of :: "int \<Rightarrow> string" where
  "digits_of n = (if n < 10 then [digit_char n] else digits_of (n div 10) @ [digit_char (n mod 10)])"
  by pat_completeness auto
termination
  by (relation "measure nat") auto

declare digits_of.simps [simp del]

text \<open>
  Modelled from the spec: \<^verbatim>\<open>charconv<T>::to_chars\<close> of \<^verbatim>\<open>cfg/utilities.hpp\<close>, which is
  not among the sources. The spec has it render the canonical decimal text; as
  \<^verbatim>\<open>std::to_chars\<close> does, it writes a minus sign for a negative number, then the digits
  without leading zeros, and reports \<^verbatim>\<open>value_too_large\<close> when the text does not fit
  into the buffer of the given size.
\<close>

definition to_chars :: "nat \<Rightarrow> int \<Rightarrow> errc option \<times> string" where
  "to_chars cap n =
     (let str = (if n < 0 then CHR ''-'' # digits_of (- n) else digits_of n)
      in if cap < length str then (Some value_too_large, []) else (None, str))"

text \<open>
  \<^verbatim>\<open>option_traits<T>::set_value\<close> for the three families of traits (lines 533-540, 557-560,
  573-576). The arithmetic one declares \<^verbatim>\<open>value\<close> without initialising it, lets
  \<^verbatim>\<open>from_chars\<close> write it, copies a conversion error into \<^verbatim>\<open>ec\<close> and returns
  \<^verbatim>\<open>value\<close> whatever happened.
\<close>

fun traits_set_value :: "value_type \<Rightarrow> string \<Rightarrow> error_code option \<Rightarrow> val \<times> error_code option" where
  "traits_set_value (T_arithmetic T) argument ec =
     (let (r_ec, value) = from_chars T argument None
      in (V_arithmetic T value, case r_ec of None \<Rightarrow> ec | Some e \<Rightarrow> Some (Std e)))"
| "traits_set_value T_path argument ec = (V_path argument, ec)"
| "traits_set_value T_string argument ec = (V_string argument, ec)"

text \<open>
  \<^verbatim>\<open>option_traits<T>::to_string\<close> (lines 542-549, 562-565, 578-581), together with the
  \<^verbatim>\<open>if constexpr\<close> of \<^verbatim>\<open>option<T>::get_default_value\<close> that returns a string value as
  it is. The arithmetic one formats into a buffer of 32 characters and throws when
  \<^verbatim>\<open>to_chars\<close> fails; formatting a number that was never written reads an uninitialised
  variable.
\<close>

fun to_string :: "val \<Rightarrow> failure + string" where
  "to_string (V_arithmetic T None) = Inl Undefined_behaviour"
| "to_string (V_arithmetic T (Some n)) =
     (case to_chars 32 n of
        (Some e, b) \<Rightarrow> Inl (System_error (Std e))
      | (None, b) \<Rightarrow> Inr b)"
| "to_string (V_path p) = Inr p"
| "to_string (V_string s) = Inr s"

text \<open>
  The canonical form of a numeric token, in the words of the spec: the decimal text
  without redundant leading zeros and without a redundant sign (the minus sign of a zero).
\<close>

definition strip_zeros :: "string \<Rightarrow> string" where
  "strip_zeros ds = (let r = dropWhile (\<lambda>c. c = CHR ''0'') ds in if r = [] then ''0'' else r)"

definition canonical_form :: "string \<Rightarrow> string" where
  "canonical_form s =
     (if s \<noteq> [] \<and> hd s = CHR ''-'' then
        (let m = strip_zeros (tl s) in if m = ''0'' then m else CHR ''-'' # m)
      else strip_zeros s)"

text \<open>
  A valid numeric token of an integer type: an optional minus sign (signed types only),
  then one or more decimal digits and nothing else, denoting a number of the type.
\<close>

definition numeric_token :: "int_type \<Rightarrow> string \<Rightarrow> bool" where
  "numeric_token T s =
     (let neg = (is_signed T \<and> s \<noteq> [] \<and> hd s = CHR ''-'');
          ds = (if neg then tl s else s);
          n = (if neg then - digits_value 0 ds else digits_value 0 ds)
      in ds \<noteq> [] \<and> list_all is_digit ds \<and> min_of T \<le> n \<and> n \<le> max_of T)"

text \<open>
  A token without redundant leading zeros or sign: its digits do not start with a zero,
  unless the token is the single digit zero.
\<close>

definition no_redundancy :: "string \<Rightarrow> bool" where
  "no_redundancy s =
     (let ds = (if s \<noteq> [] \<and> hd s = CHR ''-'' then tl s else s)
      in if ds \<noteq> [] \<and> hd ds = CHR ''0'' then s = ''0'' else True)"

section \<open>Option entity\<close>

text \<open>
  \<^verbatim>\<open>struct option_base\<close> (lines 110-219) with the one field \<^verbatim>\<open>option<T>\<close> adds
  (line 227). \<open>m_traits\<close> records the dynamic class of the object: \<open>None\<close> for
  \<^verbatim>\<open>option_base\<close> and \<^verbatim>\<open>option<void>\<close>, which override nothing but \<^verbatim>\<open>clone\<close>, and
  \<open>Some T\<close> for \<^verbatim>\<open>option<T>\<close> with the value type of its traits. \<open>m_seen\<close> is an
  \<^verbatim>\<open>int\<close> that only ever grows by one per matched option, far from its upper bound; the
  model counts in unbounded integers.
\<close>

record cfg_option =
  m_name :: string
  m_desc :: string
  m_short_name :: char
  m_is_flag :: bool
  m_has_default :: bool
  m_hidden :: bool
  m_seen :: int
  m_traits :: "value_type option"
  m_value :: "val option"

text \<open>
  The constructor of \<^verbatim>\<open>option_base\<close> (lines 120-133): a name of one character is also
  the short name; a name that ends in a comma and a character loses these two, and the
  character becomes the short name.
\<close>

definition option_base :: "string \<Rightarrow> string \<Rightarrow> bool \<Rightarrow> cfg_option" where
  "option_base name desc hidden =
     (let split = (length name > 2 \<and> name ! (length name - 2) = CHR '','')
      in \<lparr> m_name = (if length name \<noteq> 1 \<and> split then take (length name - 2) name else name),
           m_desc = desc,
           m_short_name = (if length name = 1 then hd name
                           else if split then last name else CHR 0x00),
           m_is_flag = True, m_has_default = False, m_hidden = hidden, m_seen = 0,
           m_traits = None, m_value = None \<rparr>)"

text \<open>The two constructors of \<^verbatim>\<open>option<T>\<close> (lines 231-242).\<close>

definition option_T :: "value_type \<Rightarrow> string \<Rightarrow> string \<Rightarrow> bool \<Rightarrow> cfg_option" where
  "option_T T name desc hidden = (option_base name desc hidden)\<lparr>m_is_flag := False, m_traits := Some T\<rparr>"

definition option_T_default :: "value_type \<Rightarrow> string \<Rightarrow> val \<Rightarrow> string \<Rightarrow> bool \<Rightarrow> cfg_option" where
  "option_T_default T name default_value desc hidden =
     (option_T T name desc hidden)\<lparr>m_has_default := True, m_value := Some default_value\<rparr>"

text \<open>
  The virtual \<^verbatim>\<open>set_value\<close>: \<^verbatim>\<open>assert(false)\<close> in \<^verbatim>\<open>option_base\<close> (lines 137-140), and
  in \<^verbatim>\<open>option<T>\<close> the assignment of whatever the traits return (lines 244-247).
\<close>

definition set_value :: "cfg_option \<Rightarrow> string \<Rightarrow> error_code option \<Rightarrow> failure + cfg_option \<times> error_code option" where
  "set_value opt argument ec =
     (case m_traits opt of
        None \<Rightarrow> Inl Assertion_failed
      | Some T \<Rightarrow> (let (v, ec') = traits_set_value T argument ec
                  in Inr (opt\<lparr>m_value := Some v\<rparr>, ec')))"

text \<open>The virtual \<^verbatim>\<open>get_value\<close> (lines 142-145, 249-255); an empty \<^verbatim>\<open>std::any\<close> is \<open>None\<close>.\<close>

definition get_value :: "cfg_option \<Rightarrow> val option" where
  "get_value opt = (case m_traits opt of None \<Rightarrow> None | Some T \<Rightarrow> m_value opt)"

text \<open>
  The virtual \<^verbatim>\<open>get_default_value\<close>: the empty string in \<^verbatim>\<open>option_base\<close>
  (lines 147-150); \<^verbatim>\<open>option<T>\<close> dereferences \<^verbatim>\<open>m_value\<close> without a test
  (lines 257-263), which is undefined when the slot is disengaged.
\<close>

definition get_default_value :: "cfg_option \<Rightarrow> failure + string" where
  "get_default_value opt =
     (case m_traits opt of
        None \<Rightarrow> Inr []
      | Some T \<Rightarrow> (case m_value opt of
                    None \<Rightarrow> Inl Undefined_behaviour
                  | Some v \<Rightarrow> to_string v))"

text \<open>
  \<^verbatim>\<open>width\<close> (lines 157-171), in \<^verbatim>\<open>uint32_t\<close> arithmetic. It asks for the default text
  only when \<^verbatim>\<open>m_has_default\<close> is set.
\<close>

definition width :: "cfg_option \<Rightarrow> failure + 32 word" where
  "width opt =
     (let result = (of_nat (length (m_name opt)) :: 32 word);
          result = (if result \<le> 1 then 2
                    else if m_short_name opt \<noteq> CHR 0x00 then result + 7 else result)
      in if \<not> m_is_flag opt then
           (if m_has_default opt then
              (case get_default_value opt of
                 Inl f \<Rightarrow> Inl f
               | Inr d \<Rightarrow> Inr (result + 4 + (4 + of_nat (length d)) + 6))
            else Inr (result + 4 + 6))
         else Inr (result + 6))"

section \<open>Option registry\<close>

text \<open>
  \<^verbatim>\<open>struct config_impl\<close> (lines 471-507). The registry owns clones of the declared
  options, in declaration order; a pointer to an option is its position in \<open>m_options\<close>.
\<close>

record config_impl =
  m_options :: "cfg_option list"
  m_operands :: "string list"

definition init :: "cfg_option list \<Rightarrow> config_impl" where
  "init options = \<lparr> m_options = options, m_operands = [] \<rparr>"

text \<open>The two overloads of \<^verbatim>\<open>get_option\<close> (lines 485-503): the first match, or null.\<close>

fun get_option :: "cfg_option list \<Rightarrow> string \<Rightarrow> nat option" where
  "get_option [] name = None"
| "get_option (o1 # os) name =
     (if m_name o1 = name then Some 0 else map_option Suc (get_option os name))"

fun get_option_char :: "cfg_option list \<Rightarrow> char \<Rightarrow> nat option" where
  "get_option_char [] short_name = None"
| "get_option_char (o1 # os) short_name =
     (if m_short_name o1 = short_name then Some 0 else map_option Suc (get_option_char os short_name))"

section \<open>Parser engine\<close>

datatype State = State_options | State_operands

text \<open>
  The registry together with the local variables of \<^verbatim>\<open>parse\<close> that live across
  iterations (lines 285-293): the error code and the state.
\<close>

record parse_frame = config_impl +
  ec :: "error_code option"
  state :: State

text \<open>
  An element of \<^verbatim>\<open>argv\<close> is a pointer to a NUL-terminated string, which the code reads
  up to the first NUL. \<^verbatim>\<open>argc\<close> is the length of the vector, and no element is the null
  pointer (line 299 leaves the loop on one, with the comment that it should not happen).
\<close>

definition c_str :: "string \<Rightarrow> string" where
  "c_str s = takeWhile (\<lambda>c. c \<noteq> CHR 0x00) s"

text \<open>\<^verbatim>\<open>++opt->m_seen\<close> on the option at position \<open>k\<close>.\<close>

definition seen :: "nat \<Rightarrow> cfg_option list \<Rightarrow> cfg_option list" where
  "seen k opts = opts[k := (opts ! k)\<lparr>m_seen := m_seen (opts ! k) + 1\<rparr>]"

text \<open>
  Lines 391-400: an empty argument is replaced by the next element of the vector when
  there is one, which advances \<open>i\<close>; a still empty argument is an error, any other one
  goes to the option's \<^verbatim>\<open>set_value\<close>.
\<close>

definition option_argument ::
  "string list \<Rightarrow> nat \<Rightarrow> parse_frame \<Rightarrow> nat \<Rightarrow> string \<Rightarrow> failure + nat \<times> parse_frame" where
  "option_argument argv i st k opt_arg =
     (let (i', opt_arg') =
            (if opt_arg = [] \<and> i + 1 < length argv then (i + 1, c_str (argv ! (i + 1)))
             else (i, opt_arg))
      in if opt_arg' = [] then Inr (i', st\<lparr>ec := Some (Config missing_argument_for_option)\<rparr>)
         else (case set_value (m_options st ! k) opt_arg' (ec st) of
                 Inl f \<Rightarrow> Inl f
               | Inr (opt', ec') \<Rightarrow>
                   Inr (i', st\<lparr>m_options := (m_options st)[k := opt'], ec := ec'\<rparr>)))"

text \<open>
  Lines 329-362, on the text after the two dashes: the name ends at the first \<^verbatim>\<open>=\<close>, and
  the argument is what follows it (empty when there is no \<^verbatim>\<open>=\<close>).
\<close>

definition long_option ::
  "bool \<Rightarrow> string list \<Rightarrow> nat \<Rightarrow> parse_frame \<Rightarrow> string \<Rightarrow> failure + nat \<times> parse_frame" where
  "long_option ignore_unknown argv i st arg =
     (let s_arg = takeWhile (\<lambda>c. c \<noteq> CHR ''='') arg;
          opt_arg = drop (length s_arg + 1) arg
      in case get_option (m_options st) s_arg of
           None \<Rightarrow>
             Inr (i, if \<not> ignore_unknown then st\<lparr>ec := Some (Config unknown_option)\<rparr> else st)
         | Some k \<Rightarrow>
             if m_is_flag (m_options st ! k) then
               Inr (i, (if opt_arg \<noteq> []
                        then st\<lparr>ec := Some (Config option_does_not_accept_argument)\<rparr>
                        else st)\<lparr>m_options := seen k (m_options st)\<rparr>)
             else option_argument argv i (st\<lparr>m_options := seen k (m_options st)\<rparr>) k opt_arg)"

text \<open>
  The \<^verbatim>\<open>while\<close> loop of lines 367-385 over the characters after the single dash. It ends
  at the end of the text or once the error code is set; a valued option ends it with the
  rest of the text as its argument.
\<close>

fun scan_short ::
  "bool \<Rightarrow> string \<Rightarrow> cfg_option list \<Rightarrow> error_code option
     \<Rightarrow> cfg_option list \<times> error_code option \<times> (nat \<times> string) option" where
  "scan_short ignore_unknown [] opts e = (opts, e, None)"
| "scan_short ignore_unknown (c # arg) opts e =
     (if c = CHR 0x00 \<or> e \<noteq> None then (opts, e, None)
      else (case get_option_char opts c of
              None \<Rightarrow>
                scan_short ignore_unknown arg opts
                  (if \<not> ignore_unknown then Some (Config unknown_option) else e)
            | Some k \<Rightarrow>
                if m_is_flag (opts ! k) then scan_short ignore_unknown arg (seen k opts) e
                else (seen k opts, e, Some (k, arg))))"

text \<open>Lines 363-389 and what follows them for a valued option.\<close>

definition short_options ::
  "bool \<Rightarrow> string list \<Rightarrow> nat \<Rightarrow> parse_frame \<Rightarrow> string \<Rightarrow> failure + nat \<times> parse_frame" where
  "short_options ignore_unknown argv i st arg =
     (case scan_short ignore_unknown arg (m_options st) (ec st) of
        (opts, e, None) \<Rightarrow> Inr (i, st\<lparr>m_options := opts, ec := e\<rparr>)
      | (opts, e, Some (k, opt_arg)) \<Rightarrow>
          option_argument argv i (st\<lparr>m_options := opts, ec := e\<rparr>) k opt_arg)"

text \<open>
  One iteration of the \<^verbatim>\<open>for\<close> loop (lines 297-400), without the increment of its
  header: the result is the value of \<open>i\<close> at the end of the body and the new frame.
\<close>

definition parse_arg ::
  "bool \<Rightarrow> string list \<Rightarrow> nat \<Rightarrow> parse_frame \<Rightarrow> failure + nat \<times> parse_frame" where
  "parse_arg ignore_unknown argv i st =
     (let arg = c_str (argv ! i)
      in if state st = State_options \<and> (arg = [] \<or> hd arg \<noteq> CHR ''-'') then
           Inr (i, st\<lparr>m_operands := m_operands st @ [arg]\<rparr>)
         else if state st = State_options \<and> arg = ''--'' then
           Inr (i, st\<lparr>state := State_operands\<rparr>)
         else if state st = State_operands then
           Inr (i, st\<lparr>m_operands := m_operands st @ [arg]\<rparr>)
         else if tl arg \<noteq> [] \<and> hd (tl arg) = CHR ''-'' then
           long_option ignore_unknown argv i st (tl (tl arg))
         else short_options ignore_unknown argv i st (tl arg))"

text \<open>
  The \<^verbatim>\<open>for\<close> loop (line 295): it runs while \<open>i\<close> is below \<^verbatim>\<open>argc\<close> and the error code is
  clear.
\<close>

function parse_loop :: "bool \<Rightarrow> string list \<Rightarrow> nat \<Rightarrow> parse_frame \<Rightarrow> failure + parse_frame" where
  "parse_loop ignore_unknown argv i st =
     (if i < length argv \<and> ec st = None then
        (case parse_arg ignore_unknown argv i st of
           Inl f \<Rightarrow> Inl f
         | Inr (i', st') \<Rightarrow> parse_loop ignore_unknown argv (i' + 1) st')
      else Inr st)"
  by pat_completeness auto
termination
  by (relation "measure (\<lambda>(ignore_unknown, argv, i, st). length argv - i)")
     (auto simp: parse_arg_def long_option_def short_options_def option_argument_def Let_def
           split: if_splits option.splits sum.splits prod.splits)

declare parse_loop.simps [simp del]

text \<open>
  \<^verbatim>\<open>parse\<close> with an error code (lines 285-402): the loop from position 1, in state
  \<^verbatim>\<open>options\<close>, on the registry and the caller's error code. The overload without an
  error code (lines 277-283) calls this one with a clear code and throws what it finds
  in the code afterwards.
\<close>

definition parse ::
  "bool \<Rightarrow> string list \<Rightarrow> config_impl \<Rightarrow> error_code option \<Rightarrow> failure + parse_frame" where
  "parse ignore_unknown argv m_impl e =
     parse_loop ignore_unknown argv 1
       (config_impl.extend m_impl \<lparr> ec = e, state = State_options \<rparr>)"

section \<open>Configuration facade\<close>

text \<open>
  The type argument of \<^verbatim>\<open>get<T>\<close>, as \<^verbatim>\<open>std::any_cast\<close> sees it (line 436): the cast
  succeeds only when \<^verbatim>\<open>T\<close> is the very C++ type of the held value. \<open>Held_type vt\<close> is
  the C++ type that the values of the model's type \<open>vt\<close> have in the code: the arithmetic
  type the option was declared with, \<^verbatim>\<open>std::filesystem::path\<close>, or \<^verbatim>\<open>std::string\<close>.
  \<open>Other_type\<close> is every other C++ type, among them an arithmetic type that only shares
  signedness and width with the declared one (\<^verbatim>\<open>long long\<close> against \<^verbatim>\<open>long\<close>) and a
  string-like type that is not \<^verbatim>\<open>std::string\<close> (\<^verbatim>\<open>const char *\<close>). The model tells
  arithmetic types apart by signedness and width, so a registry holds one C++ type for
  each of these.
\<close>

datatype requested_type = Held_type value_type | Other_type

text \<open>\<^verbatim>\<open>has\<close>, \<^verbatim>\<open>count\<close>, \<^verbatim>\<open>get<T>\<close> and \<^verbatim>\<open>operands\<close> (lines 412-442).\<close>

definition has :: "'a config_impl_scheme \<Rightarrow> string \<Rightarrow> bool" where
  "has m_impl name =
     (case get_option (m_options m_impl) name of
        None \<Rightarrow> False
      | Some k \<Rightarrow> m_seen (m_options m_impl ! k) > 0 \<or> m_has_default (m_options m_impl ! k))"

definition count :: "'a config_impl_scheme \<Rightarrow> string \<Rightarrow> int" where
  "count m_impl name =
     (case get_option (m_options m_impl) name of
        None \<Rightarrow> 0
      | Some k \<Rightarrow> m_seen (m_options m_impl ! k))"

definition get :: "requested_type \<Rightarrow> 'a config_impl_scheme \<Rightarrow> string \<Rightarrow> failure + val" where
  "get T m_impl name =
     (case get_option (m_options m_impl) name of
        None \<Rightarrow> Inl (System_error (Config unknown_option))
      | Some k \<Rightarrow>
          (case get_value (m_options m_impl ! k) of
             None \<Rightarrow> Inl (System_error (Config option_not_specified))
           | Some v \<Rightarrow> if T = Held_type (type_of v) then Inr v else Inl Bad_any_cast))"

definition operands :: "'a config_impl_scheme \<Rightarrow> string list" where
  "operands m_impl = m_operands m_impl"

section \<open>Invariant of the value slot\<close>

text \<open>
  What every constructor establishes and the parser keeps: the occurrence count is not
  negative, and the slot of an option that was not matched and has no default is absent.
\<close>

definition slot_inv :: "cfg_option \<Rightarrow> bool" where
  "slot_inv opt =
     (0 \<le> m_seen opt \<and> (m_seen opt = 0 \<and> \<not> m_has_default opt \<longrightarrow> m_value opt = None))"

text \<open>
  What every constructor establishes as well: an object that is not a flag is an
  \<^verbatim>\<open>option<T>\<close>, whose \<^verbatim>\<open>set_value\<close> is the one of lines 244-247.
\<close>

definition well_formed :: "cfg_option \<Rightarrow> bool" where
  "well_formed opt = (m_is_flag opt \<or> m_traits opt \<noteq> None)"

text \<open>
  A character that resolves to a flag option of the registry: the cluster scan counts it
  and goes on.
\<close>

definition known_flag :: "cfg_option list \<Rightarrow> char \<Rightarrow> bool" where
  "known_flag opts c = (case get_option_char opts c of None \<Rightarrow> False | Some k \<Rightarrow> m_is_flag (opts ! k))"

section \<open>Lookup and occurrence counts\<close>

lemma get_option_less: "get_option opts name = Some k \<Longrightarrow> k < length opts"
  by (induction opts arbitrary: k) (auto split: if_splits)

lemma get_option_char_less: "get_option_char opts c = Some k \<Longrightarrow> k < length opts"
  by (induction opts arbitrary: k) (auto split: if_splits)

lemma get_option_None_iff: "get_option opts name = None \<longleftrightarrow> name \<notin> m_name ` set opts"
  by (induction opts) auto

lemma get_option_char_map:
  "map m_short_name opts = map m_short_name opts' \<Longrightarrow>
     get_option_char opts c = get_option_char opts' c"
proof (induction opts arbitrary: opts')
  case Nil
  then show ?case by simp
next
  case (Cons a opts)
  then obtain b os' where "opts' = b # os'" by (cases opts') auto
  with Cons show ?case by simp
qed

lemma length_seen [simp]: "length (seen k opts) = length opts"
  by (simp add: seen_def)

lemma nth_seen:
  "j < length opts \<Longrightarrow>
     seen k opts ! j = (if j = k then (opts ! j)\<lparr>m_seen := m_seen (opts ! j) + 1\<rparr> else opts ! j)"
  by (simp add: seen_def)

lemma short_name_seen [simp]: "map m_short_name (seen k opts) = map m_short_name opts"
  by (rule nth_equalityI) (simp_all add: nth_seen)

lemma get_option_char_seen [simp]: "get_option_char (seen k opts) c = get_option_char opts c"
  by (rule get_option_char_map) simp

lemma is_flag_seen [simp]:
  "j < length opts \<Longrightarrow> m_is_flag (seen k opts ! j) = m_is_flag (opts ! j)"
  by (simp add: nth_seen)

section \<open>The parser keeps the invariant\<close>

lemma slot_inv_seen: "list_all slot_inv opts \<Longrightarrow> list_all slot_inv (seen k opts)"
  by (auto simp: list_all_length nth_seen slot_inv_def)

lemma seen_positive:
  "list_all slot_inv opts \<Longrightarrow> k < length opts \<Longrightarrow> 0 < m_seen (seen k opts ! k)"
  by (auto simp: list_all_length nth_seen slot_inv_def)

lemma set_value_fields:
  "set_value opt a e = Inr (opt', e') \<Longrightarrow>
     m_seen opt' = m_seen opt \<and> m_has_default opt' = m_has_default opt"
  by (auto simp: set_value_def split: option.splits prod.splits)

lemma scan_short_inv:
  "scan_short ign arg opts e = (opts', e', r) \<Longrightarrow> list_all slot_inv opts \<Longrightarrow>
     list_all slot_inv opts' \<and> length opts' = length opts \<and>
     (\<forall>k a. r = Some (k, a) \<longrightarrow> k < length opts' \<and> 0 < m_seen (opts' ! k))"
proof (induction arg arbitrary: opts e)
  case Nil
  then show ?case by simp
next
  case (Cons c arg)
  show ?case
  proof (cases "c = CHR 0x00 \<or> e \<noteq> None")
    case True
    with Cons.prems show ?thesis by auto
  next
    case False
    show ?thesis
    proof (cases "get_option_char opts c")
      case None
      with False Cons.prems
      have "scan_short ign arg opts (if \<not> ign then Some (Config unknown_option) else e)
              = (opts', e', r)"
        by (cases ign) auto
      from Cons.IH[OF this Cons.prems(2)] show ?thesis .
    next
      case (Some k)
      then have k: "k < length opts" by (rule get_option_char_less)
      show ?thesis
      proof (cases "m_is_flag (opts ! k)")
        case True
        with False Some Cons.prems have "scan_short ign arg (seen k opts) e = (opts', e', r)"
          by simp
        from Cons.IH[OF this slot_inv_seen[OF Cons.prems(2)]] show ?thesis by auto
      next
        case False
        with \<open>\<not> (c = CHR 0x00 \<or> e \<noteq> None)\<close> Some Cons.prems k show ?thesis
          by (auto simp: slot_inv_seen seen_positive)
      qed
    qed
  qed
qed

lemma option_argument_inv:
  assumes "option_argument argv i st k a = Inr (i', st')"
    and "list_all slot_inv (m_options st)" and "k < length (m_options st)"
    and "0 < m_seen (m_options st ! k)"
  shows "list_all slot_inv (m_options st')"
  using assms
  by (auto simp: option_argument_def Let_def list_all_length nth_list_update slot_inv_def
           dest!: set_value_fields split: if_splits sum.splits prod.splits)

lemma long_option_inv:
  assumes "long_option ign argv i st arg = Inr (i', st')"
    and "list_all slot_inv (m_options st)"
  shows "list_all slot_inv (m_options st')"
proof (cases "get_option (m_options st) (takeWhile (\<lambda>c. c \<noteq> CHR ''='') arg)")
  case None
  with assms show ?thesis
    by (auto simp: long_option_def Let_def split: if_splits)
next
  case (Some k)
  then have k: "k < length (m_options st)" by (rule get_option_less)
  show ?thesis
  proof (cases "m_is_flag (m_options st ! k)")
    case True
    with assms Some show ?thesis
      by (auto simp: long_option_def Let_def slot_inv_seen split: if_splits)
  next
    case False
    with assms Some
    have "option_argument argv i (st\<lparr>m_options := seen k (m_options st)\<rparr>) k
            (drop (length (takeWhile (\<lambda>c. c \<noteq> CHR ''='') arg) + 1) arg) = Inr (i', st')"
      by (simp add: long_option_def Let_def)
    then show ?thesis
      by (rule option_argument_inv) (simp_all add: slot_inv_seen seen_positive assms(2) k)
  qed
qed

lemma short_options_inv:
  assumes "short_options ign argv i st arg = Inr (i', st')"
    and "list_all slot_inv (m_options st)"
  shows "list_all slot_inv (m_options st')"
proof -
  obtain opts e r where scan: "scan_short ign arg (m_options st) (ec st) = (opts, e, r)"
    by (cases "scan_short ign arg (m_options st) (ec st)") auto
  note inv = scan_short_inv[OF scan assms(2)]
  show ?thesis
  proof (cases r)
    case None
    with assms(1) scan inv show ?thesis
      by (auto simp: short_options_def)
  next
    case (Some ka)
    obtain k a where ka: "ka = (k, a)" by (cases ka) auto
    with Some assms(1) scan
    have "option_argument argv i (st\<lparr>m_options := opts, ec := e\<rparr>) k a = Inr (i', st')"
      by (simp add: short_options_def)
    then show ?thesis
      using inv Some ka by (auto intro: option_argument_inv)
  qed
qed

lemma parse_arg_inv:
  assumes "parse_arg ign argv i st = Inr (i', st')"
    and "list_all slot_inv (m_options st)"
  shows "list_all slot_inv (m_options st')"
  using assms
  by (auto simp: parse_arg_def Let_def split: if_splits
           intro: long_option_inv short_options_inv)

lemma parse_loop_done:
  "\<not> (i < length argv \<and> ec st = None) \<Longrightarrow> parse_loop ign argv i st = Inr st"
  by (subst parse_loop.simps) auto

lemma parse_loop_step:
  "i < length argv \<Longrightarrow> ec st = None \<Longrightarrow> parse_arg ign argv i st = Inr (i', st') \<Longrightarrow>
     parse_loop ign argv i st = parse_loop ign argv (i' + 1) st'"
  by (subst parse_loop.simps) simp

lemma parse_loop_fail:
  "i < length argv \<Longrightarrow> ec st = None \<Longrightarrow> parse_arg ign argv i st = Inl f \<Longrightarrow>
     parse_loop ign argv i st = Inl f"
  by (subst parse_loop.simps) simp

lemma parse_loop_inv:
  "parse_loop ign argv i st = Inr st' \<Longrightarrow> list_all slot_inv (m_options st) \<Longrightarrow>
     list_all slot_inv (m_options st')"
proof (induction ign argv i st rule: parse_loop.induct)
  case (1 ign argv i st)
  show ?case
  proof (cases "i < length argv \<and> ec st = None")
    case False
    with "1.prems" show ?thesis by (simp add: parse_loop_done)
  next
    case True
    show ?thesis
    proof (cases "parse_arg ign argv i st")
      case (Inl f)
      with True "1.prems"(1) show ?thesis by (simp add: parse_loop_fail)
    next
      case (Inr r)
      obtain i' st1 where r: "r = (i', st1)" by (cases r) auto
      from True Inr r "1.prems"(1) have loop: "parse_loop ign argv (i' + 1) st1 = Inr st'"
        by (simp add: parse_loop_step)
      from Inr r have "list_all slot_inv (m_options st1)"
        using parse_arg_inv "1.prems"(2) by blast
      with "1.IH"[OF True Inr r[symmetric] loop] show ?thesis by simp
    qed
  qed
qed

section \<open>The parser returns\<close>

text \<open>
  On a registry of well-formed options the assertion of \<^verbatim>\<open>option_base::set_value\<close> is
  never reached: every parse returns.
\<close>

lemma well_formed_constructors:
  "well_formed (option_base name desc hidden)"
  "well_formed (option_T T name desc hidden)"
  "well_formed (option_T_default T name v desc hidden)"
  by (simp_all add: well_formed_def option_base_def option_T_def option_T_default_def Let_def)

lemma well_formed_seen: "list_all well_formed opts \<Longrightarrow> list_all well_formed (seen k opts)"
  by (auto simp: list_all_length nth_seen well_formed_def)

lemma set_value_returns:
  assumes "well_formed opt" and "\<not> m_is_flag opt"
  shows "\<exists>opt' e'. set_value opt a e = Inr (opt', e') \<and> well_formed opt'"
  using assms
  by (auto simp: set_value_def well_formed_def split: prod.splits)

lemma scan_short_well_formed:
  "scan_short ign arg opts e = (opts', e', r) \<Longrightarrow> list_all well_formed opts \<Longrightarrow>
     list_all well_formed opts' \<and>
     (\<forall>k a. r = Some (k, a) \<longrightarrow> k < length opts' \<and> \<not> m_is_flag (opts' ! k))"
proof (induction arg arbitrary: opts e)
  case Nil
  then show ?case by simp
next
  case (Cons c arg)
  show ?case
  proof (cases "c = CHR 0x00 \<or> e \<noteq> None")
    case True
    with Cons.prems show ?thesis by auto
  next
    case False
    show ?thesis
    proof (cases "get_option_char opts c")
      case None
      with False Cons.prems
      have "scan_short ign arg opts (if \<not> ign then Some (Config unknown_option) else e)
              = (opts', e', r)"
        by (cases ign) auto
      from Cons.IH[OF this Cons.prems(2)] show ?thesis .
    next
      case (Some k)
      then have k: "k < length opts" by (rule get_option_char_less)
      show ?thesis
      proof (cases "m_is_flag (opts ! k)")
        case True
        with False Some Cons.prems have "scan_short ign arg (seen k opts) e = (opts', e', r)"
          by simp
        from Cons.IH[OF this well_formed_seen[OF Cons.prems(2)]] show ?thesis .
      next
        case False
        with \<open>\<not> (c = CHR 0x00 \<or> e \<noteq> None)\<close> Some Cons.prems k show ?thesis
          by (auto simp: well_formed_seen)
      qed
    qed
  qed
qed

lemma option_argument_returns:
  assumes "list_all well_formed (m_options st)" and "k < length (m_options st)"
    and "\<not> m_is_flag (m_options st ! k)"
  shows "\<exists>i' st'. option_argument argv i st k a = Inr (i', st') \<and>
           list_all well_formed (m_options st')"
proof -
  from assms have "well_formed (m_options st ! k)"
    by (simp add: list_all_length)
  from set_value_returns[OF this assms(3)]
  have sv: "\<exists>opt' e'. set_value (m_options st ! k) b (ec st) = Inr (opt', e') \<and> well_formed opt'" for b
    by blast
  obtain i' b where ib: "(if a = [] \<and> i + 1 < length argv then (i + 1, c_str (argv ! (i + 1))) else (i, a)) = (i', b)"
    by (cases "a = [] \<and> i + 1 < length argv") auto
  from sv[of b] obtain opt' e' where
    "set_value (m_options st ! k) b (ec st) = Inr (opt', e')" "well_formed opt'"
    by blast
  with assms(1,2) ib show ?thesis
    unfolding option_argument_def
    by (auto simp: list_all_length nth_list_update)
qed

lemma long_option_returns:
  assumes "list_all well_formed (m_options st)"
  shows "\<exists>i' st'. long_option ign argv i st arg = Inr (i', st') \<and>
           list_all well_formed (m_options st')"
proof (cases "get_option (m_options st) (takeWhile (\<lambda>c. c \<noteq> CHR ''='') arg)")
  case None
  with assms show ?thesis
    by (auto simp: long_option_def Let_def)
next
  case (Some k)
  then have k: "k < length (m_options st)" by (rule get_option_less)
  show ?thesis
  proof (cases "m_is_flag (m_options st ! k)")
    case True
    with assms Some show ?thesis
      by (auto simp: long_option_def Let_def well_formed_seen)
  next
    case False
    with assms k have "\<exists>i' st'. option_argument argv i (st\<lparr>m_options := seen k (m_options st)\<rparr>) k
            (drop (length (takeWhile (\<lambda>c. c \<noteq> CHR ''='') arg) + 1) arg) = Inr (i', st') \<and>
           list_all well_formed (m_options st')"
      by (intro option_argument_returns) (simp_all add: well_formed_seen)
    with Some False show ?thesis
      by (simp add: long_option_def Let_def)
  qed
qed

lemma short_options_returns:
  assumes "list_all well_formed (m_options st)"
  shows "\<exists>i' st'. short_options ign argv i st arg = Inr (i', st') \<and>
           list_all well_formed (m_options st')"
proof -
  obtain opts e r where scan: "scan_short ign arg (m_options st) (ec st) = (opts, e, r)"
    by (cases "scan_short ign arg (m_options st) (ec st)") auto
  note wf = scan_short_well_formed[OF scan assms]
  show ?thesis
  proof (cases r)
    case None
    with scan wf show ?thesis
      by (simp add: short_options_def)
  next
    case (Some ka)
    obtain k a where ka: "ka = (k, a)" by (cases ka) auto
    with Some wf have "\<exists>i' st'. option_argument argv i (st\<lparr>m_options := opts, ec := e\<rparr>) k a = Inr (i', st') \<and>
           list_all well_formed (m_options st')"
      by (intro option_argument_returns) simp_all
    with Some ka scan show ?thesis
      by (simp add: short_options_def)
  qed
qed

lemma parse_arg_returns:
  assumes "list_all well_formed (m_options st)"
  shows "\<exists>i' st'. parse_arg ign argv i st = Inr (i', st') \<and>
           list_all well_formed (m_options st')"
  using assms long_option_returns[OF assms] short_options_returns[OF assms]
  by (simp add: parse_arg_def Let_def)

lemma parse_loop_returns:
  "list_all well_formed (m_options st) \<Longrightarrow> \<exists>st'. parse_loop ign argv i st = Inr st'"
proof (induction ign argv i st rule: parse_loop.induct)
  case (1 ign argv i st)
  show ?case
  proof (cases "i < length argv \<and> ec st = None")
    case False
    then show ?thesis by (simp add: parse_loop_done)
  next
    case True
    from parse_arg_returns[OF "1.prems"] obtain i' st1 where
      arg: "parse_arg ign argv i st = Inr (i', st1)" and wf: "list_all well_formed (m_options st1)"
      by blast
    from "1.IH"[OF True arg refl wf] obtain st' where "parse_loop ign argv (i' + 1) st1 = Inr st'"
      by blast
    with True arg show ?thesis
      by (simp add: parse_loop_step)
  qed
qed

section \<open>Conversion failure in \<open>set_value\<close>\<close>

text \<open>
  C1. An \<^verbatim>\<open>int\<close> option declared without a default has an absent value slot. Setting it
  from the token \<^verbatim>\<open>abc\<close> sets the error code to \<^verbatim>\<open>invalid_argument\<close>, and the slot is
  not what it was: it is engaged, holding the never written variable of the conversion.
\<close>

theorem set_value_conversion_failure:
  "m_value (option_T (T_arithmetic (Integral True 32)) ''port'' ''port number'' False) = None \<and>
   set_value (option_T (T_arithmetic (Integral True 32)) ''port'' ''port number'' False) ''abc'' None
     = Inr ((option_T (T_arithmetic (Integral True 32)) ''port'' ''port number'' False)
              \<lparr>m_value := Some (V_arithmetic (Integral True 32) None)\<rparr>,
            Some (Std invalid_argument))"
  by (simp add: set_value_def option_T_def option_base_def from_chars_def is_digit_def)

section \<open>The typed getter\<close>

text \<open>
  C10. For a name that no option of the registry carries, \<^verbatim>\<open>get<T>\<close> throws the
  \<^verbatim>\<open>unknown_option\<close> error, whatever \<^verbatim>\<open>T\<close> is; this is not the
  \<^verbatim>\<open>option_not_specified\<close> error of a declared option without a value.
\<close>

theorem get_undeclared_name:
  "name \<notin> m_name ` set (m_options m_impl) \<Longrightarrow>
     get T m_impl name = Inl (System_error (Config unknown_option)) \<and>
     get T m_impl name \<noteq> Inl (System_error (Config option_not_specified))"
proof -
  assume "name \<notin> m_name ` set (m_options m_impl)"
  then have "get_option (m_options m_impl) name = None"
    by (simp add: get_option_None_iff)
  then show ?thesis
    by (simp add: get_def)
qed

theorem get_undeclared_name_witness:
  "''port'' \<notin> m_name ` set (m_options (init [option_base ''verbose,v'' ''more output'' False])) \<and>
   get (Held_type T_string) (init [option_base ''verbose,v'' ''more output'' False]) ''port''
     = Inl (System_error (Config unknown_option))"
  using get_undeclared_name [of "''port''" "init [option_base ''verbose,v'' ''more output'' False]"
      "Held_type T_string"]
  by (simp add: init_def option_base_def)

lemma slot_inv_constructors:
  "slot_inv (option_base name desc hidden)"
  "slot_inv (option_T T name desc hidden)"
  "slot_inv (option_T_default T name v desc hidden)"
  by (simp_all add: slot_inv_def option_base_def option_T_def option_T_default_def Let_def)

text \<open>
  C6. Take a registry whose options are as their constructors leave them (or as an earlier
  parse left them), and parse any argument vector. An option that is in the registry
  afterwards, was matched no time and has no declared default makes \<^verbatim>\<open>get<T>\<close> throw
  the \<^verbatim>\<open>option_not_specified\<close> error, for every \<^verbatim>\<open>T\<close>.
\<close>

theorem get_unset_option:
  assumes "list_all slot_inv (m_options m_impl)"
    and "parse ign argv m_impl e = Inr st"
    and "get_option (m_options st) name = Some k"
    and "m_seen (m_options st ! k) = 0"
    and "\<not> m_has_default (m_options st ! k)"
  shows "get T st name = Inl (System_error (Config option_not_specified))"
proof -
  from assms(1,2) have "list_all slot_inv (m_options st)"
    unfolding parse_def by (auto dest: parse_loop_inv simp: config_impl.extend_def)
  moreover from assms(3) have "k < length (m_options st)"
    by (rule get_option_less)
  ultimately have "slot_inv (m_options st ! k)"
    by (simp add: list_all_length)
  with assms(4,5) have "m_value (m_options st ! k) = None"
    by (simp add: slot_inv_def)
  with assms(3) show ?thesis
    by (simp add: get_def get_value_def split: option.splits)
qed

theorem get_unset_option_witness:
  "\<exists>st. parse False [''prog'', ''-v'']
          (init [option_T (T_arithmetic (Integral True 32)) ''port'' ''port number'' False,
                 option_base ''verbose,v'' ''more output'' False]) None = Inr st \<and>
        get_option (m_options st) ''port'' = Some 0 \<and>
        m_seen (m_options st ! 0) = 0 \<and> \<not> m_has_default (m_options st ! 0) \<and>
        count st ''verbose'' = 1 \<and>
        get (Held_type (T_arithmetic (Integral True 32))) st ''port''
          = Inl (System_error (Config option_not_specified))"
proof -
  let ?st = "\<lparr>m_options =
        [\<lparr>m_name = ''port'', m_desc = ''port number'', m_short_name = CHR 0x00,
            m_is_flag = False, m_has_default = False, m_hidden = False,
            m_seen = 0, m_traits = Some (T_arithmetic (Integral True 32)), m_value = None\<rparr>,
         \<lparr>m_name = ''verbose'', m_desc = ''more output'', m_short_name = CHR ''v'',
            m_is_flag = True, m_has_default = False, m_hidden = False,
            m_seen = 1, m_traits = None, m_value = None\<rparr>],
        m_operands = [], ec = None, state = State_options\<rparr>"
  let ?impl = "init [option_T (T_arithmetic (Integral True 32)) ''port'' ''port number'' False,
                 option_base ''verbose,v'' ''more output'' False]"
  have p: "parse False [''prog'', ''-v''] ?impl None = Inr ?st"
    by (simp add: parse_def init_def option_T_def option_base_def config_impl.extend_def
          parse_arg_def c_str_def short_options_def seen_def parse_loop.simps)
  have inv: "list_all slot_inv (m_options ?impl)"
    by (simp add: init_def slot_inv_constructors)
  have "get (Held_type (T_arithmetic (Integral True 32))) ?st ''port''
          = Inl (System_error (Config option_not_specified))"
    using get_unset_option [OF inv p, of "''port''" 0 "Held_type (T_arithmetic (Integral True 32))"]
    by simp
  with p show ?thesis
    by (simp add: count_def)
qed

section \<open>The end-of-options marker\<close>

lemma operands_loop:
  "state st = State_operands \<Longrightarrow> ec st = None \<Longrightarrow>
     parse_loop ign argv i st = Inr (st\<lparr>m_operands := m_operands st @ map c_str (drop i argv)\<rparr>)"
proof (induction "length argv - i" arbitrary: i st)
  case 0
  then show ?case by (simp add: parse_loop_done)
next
  case (Suc n)
  then have i: "i < length argv" by simp
  have arg: "parse_arg ign argv i st = Inr (i, st\<lparr>m_operands := m_operands st @ [c_str (argv ! i)]\<rparr>)"
    using Suc.prems by (simp add: parse_arg_def)
  have "n = length argv - (i + 1)" using Suc.hyps(2) by simp
  from Suc.hyps(1)[OF this, of "st\<lparr>m_operands := m_operands st @ [c_str (argv ! i)]\<rparr>"] Suc.prems
  have "parse_loop ign argv (i + 1) (st\<lparr>m_operands := m_operands st @ [c_str (argv ! i)]\<rparr>)
          = Inr (st\<lparr>m_operands := m_operands st @ [c_str (argv ! i)] @ map c_str (drop (i + 1) argv)\<rparr>)"
    by simp
  with i arg Suc.prems show ?case
    by (simp add: parse_loop_step Cons_nth_drop_Suc[symmetric])
qed

text \<open>
  C5. When the parser, in state \<^verbatim>\<open>options\<close>, meets the token \<^verbatim>\<open>--\<close>, the parse ends
  with every later token appended to the operands in order, and with the options and the
  error code as they were: no option is matched after the marker. In particular
  \<^verbatim>\<open>["prog","--","--flag"]\<close> against a flag named \<^verbatim>\<open>flag\<close> leaves its count at 0 and
  \<^verbatim>\<open>--flag\<close> as the only operand.
\<close>

theorem end_of_options:
  assumes "i < length argv" and "ec st = None" and "state st = State_options"
    and "c_str (argv ! i) = ''--''"
  shows "parse_loop ign argv i st
           = Inr (st\<lparr>state := State_operands,
                      m_operands := m_operands st @ map c_str (drop (i + 1) argv)\<rparr>)"
proof -
  have "parse_arg ign argv i st = Inr (i, st\<lparr>state := State_operands\<rparr>)"
    using assms by (simp add: parse_arg_def)
  with assms(1,2) have "parse_loop ign argv i st = parse_loop ign argv (i + 1) (st\<lparr>state := State_operands\<rparr>)"
    by (simp add: parse_loop_step)
  also have "\<dots> = Inr (st\<lparr>state := State_operands,
                      m_operands := m_operands st @ map c_str (drop (i + 1) argv)\<rparr>)"
    using assms(2) by (simp add: operands_loop)
  finally show ?thesis .
qed

theorem end_of_options_witness:
  "\<exists>st. parse False [''prog'', ''--'', ''--flag''] (init [option_base ''flag'' ''a flag'' False]) None
          = Inr st \<and>
        count st ''flag'' = 0 \<and> operands st = [''--flag'']"
  unfolding parse_def
  using end_of_options [of 1 "[''prog'', ''--'', ''--flag'']"
      "config_impl.extend (init [option_base ''flag'' ''a flag'' False]) \<lparr>ec = None, state = State_options\<rparr>" False]
  by (simp add: c_str_def config_impl.extend_def init_def option_base_def count_def operands_def)

section \<open>Short-option clusters\<close>

lemma c_str_no_nul: "CHR 0x00 \<notin> set (c_str s)"
  by (auto simp: c_str_def dest: set_takeWhileD)

lemma scan_short_error: "e \<noteq> None \<Longrightarrow> scan_short ign arg opts e = (opts, e, None)"
  by (cases arg) auto

lemma known_flag_seen: "known_flag (seen k opts) = known_flag opts"
  by (rule ext) (auto simp: known_flag_def dest: get_option_char_less split: option.splits)

lemma scan_short_flags:
  "list_all (known_flag opts) pre \<Longrightarrow> CHR 0x00 \<notin> set pre \<Longrightarrow>
     scan_short ign (pre @ suffix) opts None
       = scan_short ign suffix (fst (scan_short ign pre opts None)) None \<and>
     map m_short_name (fst (scan_short ign pre opts None)) = map m_short_name opts"
proof (induction pre arbitrary: opts)
  case Nil
  then show ?case by simp
next
  case (Cons c pre)
  from Cons.prems obtain k where k: "get_option_char opts c = Some k" "m_is_flag (opts ! k)"
    by (auto simp: known_flag_def split: option.splits)
  from Cons.prems have "list_all (known_flag (seen k opts)) pre" "CHR 0x00 \<notin> set pre"
    by (simp_all add: known_flag_seen)
  from Cons.IH[OF this]
  have "scan_short ign (pre @ suffix) (seen k opts) None
          = scan_short ign suffix (fst (scan_short ign pre (seen k opts) None)) None"
    and "map m_short_name (fst (scan_short ign pre (seen k opts) None)) = map m_short_name opts"
    by simp_all
  moreover from Cons.prems(2) have "c \<noteq> CHR 0x00" by auto
  ultimately show ?case
    using k by simp
qed

text \<open>
  C2, as amended. Take a cluster token \<^verbatim>\<open>-\<close>\<open>pre c rest\<close> whose characters \<open>pre\<close> are
  known flags and whose character \<open>c\<close> is no short name of the registry. When unknown
  options are not tolerated the scan stops at \<open>c\<close>: the parse ends with the
  \<^verbatim>\<open>unknown_option\<close> error and with the options as the scan of \<open>pre\<close> alone leaves
  them, so no character of \<open>rest\<close> is looked at and no flag in it is counted. Only when
  unknown options are tolerated does the scan go on with \<open>rest\<close>.
\<close>

theorem cluster_stops_at_unknown:
  assumes "i < length argv" and "ec st = None" and "state st = State_options"
    and "c_str (argv ! i) = CHR ''-'' # pre @ c # rest"
    and "hd (pre @ [c]) \<noteq> CHR ''-''"
    and "list_all (known_flag (m_options st)) pre"
    and "get_option_char (m_options st) c = None"
  shows "parse_loop False argv i st
           = Inr (st\<lparr>m_options := fst (scan_short False pre (m_options st) None),
                      ec := Some (Config unknown_option)\<rparr>) \<and>
         scan_short True (pre @ c # rest) (m_options st) None
           = scan_short True rest (fst (scan_short True pre (m_options st) None)) None"
proof -
  let ?opts = "m_options st"
  let ?opts' = "\<lambda>ign. fst (scan_short ign pre ?opts None)"
  have "CHR 0x00 \<notin> set (c_str (argv ! i))" by (rule c_str_no_nul)
  with assms(4) have nul: "CHR 0x00 \<notin> set pre" "c \<noteq> CHR 0x00" by auto
  have flags: "scan_short ign (pre @ c # rest) ?opts None = scan_short ign (c # rest) (?opts' ign) None"
    and names: "map m_short_name (?opts' ign) = map m_short_name ?opts" for ign
    using scan_short_flags[OF assms(6) nul(1)] by simp_all
  have unknown: "get_option_char (?opts' ign) c = None" for ign
    using get_option_char_map[OF names] assms(7) by simp
  have scan: "scan_short False (pre @ c # rest) ?opts None = (?opts' False, Some (Config unknown_option), None)"
    using flags unknown nul(2) by (simp add: scan_short_error)
  have "pre @ c # rest \<noteq> ''-''" "hd (pre @ c # rest) \<noteq> CHR ''-''"
    using assms(5) by (cases pre; auto)+
  then have "parse_arg False argv i st
               = Inr (i, st\<lparr>m_options := ?opts' False, ec := Some (Config unknown_option)\<rparr>)"
    using assms(2,3,4) scan by (simp add: parse_arg_def short_options_def Let_def)
  then have "parse_loop False argv i st
               = parse_loop False argv (i + 1) (st\<lparr>m_options := ?opts' False, ec := Some (Config unknown_option)\<rparr>)"
    using assms(1,2) by (rule parse_loop_step[rotated 2])
  moreover have "scan_short True (pre @ c # rest) ?opts None = scan_short True rest (?opts' True) None"
    using flags unknown nul(2) by simp
  ultimately show ?thesis
    by (simp add: parse_loop_done)
qed

theorem cluster_stops_at_unknown_witness:
  "parse_loop False [''prog'', ''-bxa''] 1
     \<lparr>m_options = [option_base ''a'' ''first flag'' False, option_base ''b'' ''second flag'' False],
      m_operands = [], ec = None, state = State_options\<rparr>
   = Inr \<lparr>m_options = [option_base ''a'' ''first flag'' False,
                         (option_base ''b'' ''second flag'' False)\<lparr>m_seen := 1\<rparr>],
          m_operands = [], ec = Some (Config unknown_option), state = State_options\<rparr>"
  using cluster_stops_at_unknown [of 1 "[''prog'', ''-bxa'']"
      "\<lparr>m_options = [option_base ''a'' ''first flag'' False, option_base ''b'' ''second flag'' False],
        m_operands = [], ec = None, state = State_options\<rparr>" "''b''" "CHR ''x''" "''a''"]
  by (simp add: c_str_def known_flag_def option_base_def seen_def)

text \<open>
  The claim as stated fails: in \<^verbatim>\<open>-xa\<close> with \<^verbatim>\<open>x\<close> unknown and \<^verbatim>\<open>a\<close> a flag, the
  count of \<^verbatim>\<open>a\<close> stays 0.
\<close>

theorem cluster_counterexample:
  "parse False [''prog'', ''-xa''] (init [option_base ''a'' ''a flag'' False]) None
   = Inr \<lparr>m_options =
        [\<lparr>m_name = ''a'', m_desc = ''a flag'', m_short_name = CHR ''a'',
            m_is_flag = True, m_has_default = False, m_hidden = False,
            m_seen = 0, m_traits = None, m_value = None\<rparr>],
        m_operands = [], ec = Some (Config unknown_option), state = State_options\<rparr>"
  by (simp add: parse_def init_def option_base_def config_impl.extend_def
        parse_arg_def c_str_def short_options_def seen_def parse_loop.simps)

section \<open>Long options\<close>

lemma split_at_equals:
  "CHR ''='' \<notin> set name \<Longrightarrow>
     takeWhile (\<lambda>c. c \<noteq> CHR ''='') (name @ CHR ''='' # v) = name \<and>
     takeWhile (\<lambda>c. c \<noteq> CHR ''='') name = name"
  by (induction name) auto

lemma parse_arg_long:
  assumes "state st = State_options" and "tok = ''--'' @ rest" and "rest \<noteq> []"
    and "c_str (argv ! i) = tok"
  shows "parse_arg ign argv i st = long_option ign argv i st rest"
  using assms by (simp add: parse_arg_def)

text \<open>
  An inline argument that is not empty. For a long option token \<^verbatim>\<open>--name=value\<close> whose
  name resolves to a valued option and whose \<open>value\<close> is not empty, the text after the
  first \<^verbatim>\<open>=\<close> goes to the option's \<^verbatim>\<open>set_value\<close>, and the loop goes on with the very
  next element of the vector: that element is not consumed as the argument.
\<close>

theorem inline_argument:
  assumes "i < length argv" and "ec st = None" and "state st = State_options"
    and "c_str (argv ! i) = ''--'' @ name @ CHR ''='' # v"
    and "CHR ''='' \<notin> set name"
    and "get_option (m_options st) name = Some k"
    and "\<not> m_is_flag (m_options st ! k)"
    and "v \<noteq> []"
  shows "parse_loop ign argv i st
           = (case set_value (seen k (m_options st) ! k) v None of
                Inl f \<Rightarrow> Inl f
              | Inr (opt', ec') \<Rightarrow>
                  parse_loop ign argv (i + 1)
                    (st\<lparr>m_options := (seen k (m_options st))[k := opt'], ec := ec'\<rparr>))"
proof -
  have arg: "parse_arg ign argv i st = long_option ign argv i st (name @ CHR ''='' # v)"
    using assms(3,4) by (intro parse_arg_long) simp_all
  have long: "long_option ign argv i st (name @ CHR ''='' # v)
          = option_argument argv i (st\<lparr>m_options := seen k (m_options st)\<rparr>) k v"
    using assms(5,6,7) by (simp add: long_option_def split_at_equals)
  show ?thesis
  proof (cases "set_value (seen k (m_options st) ! k) v None")
    case (Inl f)
    with assms(2,8) arg long have "parse_arg ign argv i st = Inl f"
      by (simp add: option_argument_def)
    with assms(1,2) Inl show ?thesis
      by (simp add: parse_loop_fail)
  next
    case (Inr r)
    obtain opt' ec' where r: "r = (opt', ec')" by (cases r) auto
    with Inr assms(2,8) arg long
    have "parse_arg ign argv i st
            = Inr (i, st\<lparr>m_options := (seen k (m_options st))[k := opt'], ec := ec'\<rparr>)"
      by (simp add: option_argument_def)
    with assms(1,2) Inr r show ?thesis
      by (simp add: parse_loop_step)
  qed
qed

theorem inline_argument_example:
  "parse_loop False [''prog'', ''--port=8080'', ''file''] 1
     \<lparr>m_options = [option_T (T_arithmetic (Integral True 32)) ''port'' ''port number'' False],
      m_operands = [], ec = None, state = State_options\<rparr>
   = Inr \<lparr>m_options = [(option_T (T_arithmetic (Integral True 32)) ''port'' ''port number'' False)
                          \<lparr>m_seen := 1, m_value := Some (V_arithmetic (Integral True 32) (Some 8080))\<rparr>],
          m_operands = [''file''], ec = None, state = State_options\<rparr>"
  using inline_argument [of 1 "[''prog'', ''--port=8080'', ''file'']"
      "\<lparr>m_options = [option_T (T_arithmetic (Integral True 32)) ''port'' ''port number'' False],
        m_operands = [], ec = None, state = State_options\<rparr>" "''port''" "''8080''" 0 False]
  by (simp add: c_str_def option_T_def option_base_def seen_def set_value_def from_chars_def
        is_digit_def digit_val_def parse_loop.simps parse_arg_def)

text \<open>
  C3. The token \<^verbatim>\<open>--port=\<close> has a \<^verbatim>\<open>=\<close> with nothing after it. The text after the
  \<^verbatim>\<open>=\<close> should be the argument and the next element should be left alone; the parser
  takes the next element \<^verbatim>\<open>8080\<close> as the argument of \<^verbatim>\<open>port\<close>, so that it is no
  operand, although the comment of line 391 gives the absence of the \<^verbatim>\<open>=\<close> as the
  reason for taking it.
\<close>

theorem inline_argument_empty:
  "parse False [''prog'', ''--port='', ''8080'']
     (init [option_T (T_arithmetic (Integral True 32)) ''port'' ''port number'' False]) None
   = Inr \<lparr>m_options =
        [\<lparr>m_name = ''port'', m_desc = ''port number'', m_short_name = CHR 0x00,
            m_is_flag = False, m_has_default = False, m_hidden = False,
            m_seen = 1, m_traits = Some (T_arithmetic (Integral True 32)),
            m_value = Some (V_arithmetic (Integral True 32) (Some 8080))\<rparr>],
        m_operands = [], ec = None, state = State_options\<rparr>"
  by (simp add: parse_def init_def option_T_def option_base_def config_impl.extend_def
        parse_arg_def c_str_def long_option_def option_argument_def seen_def set_value_def
        from_chars_def is_digit_def digit_val_def parse_loop.simps)

text \<open>
  C4, as amended. For a long option token \<^verbatim>\<open>--name=value\<close> whose name resolves to a flag,
  a non-empty \<open>value\<close> raises the \<^verbatim>\<open>option_does_not_accept_argument\<close> error, which
  ends the parse (the occurrence is counted all the same); with nothing after the
  \<^verbatim>\<open>=\<close> the flag is counted, no error is raised and the parse goes on.
\<close>

theorem flag_with_argument:
  assumes "i < length argv" and "ec st = None" and "state st = State_options"
    and "c_str (argv ! i) = ''--'' @ name @ CHR ''='' # v"
    and "CHR ''='' \<notin> set name"
    and "get_option (m_options st) name = Some k"
    and "m_is_flag (m_options st ! k)"
  shows "parse_loop ign argv i st
           = (if v = [] then parse_loop ign argv (i + 1) (st\<lparr>m_options := seen k (m_options st)\<rparr>)
              else Inr (st\<lparr>m_options := seen k (m_options st),
                         ec := Some (Config option_does_not_accept_argument)\<rparr>))"
proof -
  have arg: "parse_arg ign argv i st = long_option ign argv i st (name @ CHR ''='' # v)"
    using assms(3,4) by (intro parse_arg_long) simp_all
  have "long_option ign argv i st (name @ CHR ''='' # v)
          = Inr (i, if v = [] then st\<lparr>m_options := seen k (m_options st)\<rparr>
                    else st\<lparr>m_options := seen k (m_options st),
                            ec := Some (Config option_does_not_accept_argument)\<rparr>)"
    using assms(5,6,7) by (simp add: long_option_def split_at_equals)
  with arg assms(1,2) show ?thesis
    by (simp add: parse_loop_step parse_loop_done)
qed

theorem flag_with_argument_witness:
  "parse_loop False [''prog'', ''--verbose=yes''] 1
     \<lparr>m_options = [option_base ''verbose'' ''more output'' False],
      m_operands = [], ec = None, state = State_options\<rparr>
   = Inr \<lparr>m_options = [(option_base ''verbose'' ''more output'' False)\<lparr>m_seen := 1\<rparr>],
          m_operands = [], ec = Some (Config option_does_not_accept_argument),
          state = State_options\<rparr>"
  using flag_with_argument [of 1 "[''prog'', ''--verbose=yes'']"
      "\<lparr>m_options = [option_base ''verbose'' ''more output'' False],
        m_operands = [], ec = None, state = State_options\<rparr>" "''verbose''" "''yes''" 0 False]
  by (simp add: c_str_def option_base_def seen_def)

text \<open>
  The claim as stated fails for a token that has a \<^verbatim>\<open>=\<close> with nothing after it:
  \<^verbatim>\<open>--verbose=\<close> raises no error.
\<close>

theorem flag_with_argument_counterexample:
  "parse False [''prog'', ''--verbose=''] (init [option_base ''verbose'' ''more output'' False]) None
   = Inr \<lparr>m_options =
        [\<lparr>m_name = ''verbose'', m_desc = ''more output'', m_short_name = CHR 0x00,
            m_is_flag = True, m_has_default = False, m_hidden = False,
            m_seen = 1, m_traits = None, m_value = None\<rparr>],
        m_operands = [], ec = None, state = State_options\<rparr>"
  by (simp add: parse_def init_def option_base_def config_impl.extend_def
        parse_arg_def c_str_def long_option_def seen_def parse_loop.simps)

section \<open>The argument in the next element\<close>

lemma option_argument_next:
  assumes "i + 1 < length argv" and "ec st = None"
  shows "(case option_argument argv i st k [] of
            Inl f \<Rightarrow> Inl f
          | Inr (i', st') \<Rightarrow> parse_loop ign argv (i' + 1) st')
         = (if c_str (argv ! (i + 1)) = [] then
              Inr (st\<lparr>ec := Some (Config missing_argument_for_option)\<rparr>)
            else (case set_value (m_options st ! k) (c_str (argv ! (i + 1))) None of
                    Inl f \<Rightarrow> Inl f
                  | Inr (opt', ec') \<Rightarrow>
                      parse_loop ign argv (i + 2)
                        (st\<lparr>m_options := (m_options st)[k := opt'], ec := ec'\<rparr>)))"
  using assms
  by (auto simp: option_argument_def parse_loop_done split: sum.splits)

text \<open>
  C9. A valued option whose token carries no argument of its own (a long option
  \<^verbatim>\<open>--name\<close> or \<^verbatim>\<open>--name=\<close>, or a cluster that ends with the option's character)
  takes the next element of the vector as it is, whatever its first characters are: a
  non-empty element goes to the option's \<^verbatim>\<open>set_value\<close> and the loop goes on two
  positions further, so the element is never classified as an option or an operand. An
  empty element is consumed as well and is reported as a missing argument.
\<close>

theorem next_slot_is_argument:
  assumes "i + 1 < length argv" and "ec st = None" and "state st = State_options"
    and "(c_str (argv ! i) \<noteq> ''--'' \<and>
          (c_str (argv ! i) = ''--'' @ name \<or> c_str (argv ! i) = ''--'' @ name @ ''='') \<and>
          CHR ''='' \<notin> set name \<and>
          get_option (m_options st) name = Some k \<and> \<not> m_is_flag (m_options st ! k) \<and>
          opts = seen k (m_options st))
       \<or> (c_str (argv ! i) = CHR ''-'' # cluster \<and> hd cluster \<noteq> CHR ''-'' \<and>
          scan_short ign cluster (m_options st) None = (opts, None, Some (k, [])))"
  shows "parse_loop ign argv i st
           = (if c_str (argv ! (i + 1)) = [] then
                Inr (st\<lparr>m_options := opts, ec := Some (Config missing_argument_for_option)\<rparr>)
              else (case set_value (opts ! k) (c_str (argv ! (i + 1))) None of
                      Inl f \<Rightarrow> Inl f
                    | Inr (opt', ec') \<Rightarrow>
                        parse_loop ign argv (i + 2)
                          (st\<lparr>m_options := opts[k := opt'], ec := ec'\<rparr>)))"
proof -
  have i: "i < length argv" using assms(1) by simp
  have "parse_arg ign argv i st = option_argument argv i (st\<lparr>m_options := opts\<rparr>) k []"
  proof (rule disjE[OF assms(4)])
    assume long: "c_str (argv ! i) \<noteq> ''--'' \<and>
          (c_str (argv ! i) = ''--'' @ name \<or> c_str (argv ! i) = ''--'' @ name @ ''='') \<and>
          CHR ''='' \<notin> set name \<and>
          get_option (m_options st) name = Some k \<and> \<not> m_is_flag (m_options st ! k) \<and>
          opts = seen k (m_options st)"
    then have tok: "c_str (argv ! i) = ''--'' @ name \<or> c_str (argv ! i) = ''--'' @ name @ ''=''"
      and ne: "c_str (argv ! i) \<noteq> ''--''" and name: "CHR ''='' \<notin> set name"
      and k: "get_option (m_options st) name = Some k" "\<not> m_is_flag (m_options st ! k)"
      and opts: "opts = seen k (m_options st)"
      by simp_all
    define rest where "rest = tl (tl (c_str (argv ! i)))"
    with tok have rest: "c_str (argv ! i) = ''--'' @ rest" "rest = name \<or> rest = name @ ''=''"
      by (cases "c_str (argv ! i) = ''--'' @ name"; simp)+
    with ne have "rest \<noteq> []" by auto
    with assms(3) rest(1) have "parse_arg ign argv i st = long_option ign argv i st rest"
      by (intro parse_arg_long) simp_all
    also have "long_option ign argv i st rest = option_argument argv i (st\<lparr>m_options := opts\<rparr>) k []"
    proof (cases "rest = name")
      case True
      with name k opts show ?thesis
        by (simp add: long_option_def split_at_equals)
    next
      case False
      with rest(2) have "rest = name @ ''=''" by simp
      with name k opts show ?thesis
        by (simp add: long_option_def split_at_equals)
    qed
    finally show ?thesis .
  next
    assume short: "c_str (argv ! i) = CHR ''-'' # cluster \<and> hd cluster \<noteq> CHR ''-'' \<and>
          scan_short ign cluster (m_options st) None = (opts, None, Some (k, []))"
    then have tok: "c_str (argv ! i) = CHR ''-'' # cluster" and hd: "hd cluster \<noteq> CHR ''-''"
      and scan: "scan_short ign cluster (m_options st) None = (opts, None, Some (k, []))"
      by simp_all
    from scan have "cluster \<noteq> []" by auto
    with hd have "cluster \<noteq> ''-''" by auto
    with tok hd assms(2,3) scan
    have "parse_arg ign argv i st
            = option_argument argv i (st\<lparr>m_options := opts, ec := None\<rparr>) k []"
      by (simp add: parse_arg_def short_options_def Let_def)
    moreover from assms(2) have "st\<lparr>m_options := opts, ec := None\<rparr> = st\<lparr>m_options := opts\<rparr>"
      by (cases st) simp
    ultimately show ?thesis
      by (simp only:)
  qed
  then have "parse_loop ign argv i st
          = (case option_argument argv i (st\<lparr>m_options := opts\<rparr>) k [] of
               Inl f \<Rightarrow> Inl f
             | Inr (i', st') \<Rightarrow> parse_loop ign argv (i' + 1) st')"
    using i assms(2) by (subst parse_loop.simps) simp
  also have "\<dots> = (if c_str (argv ! (i + 1)) = [] then
                Inr (st\<lparr>m_options := opts, ec := Some (Config missing_argument_for_option)\<rparr>)
              else (case set_value (opts ! k) (c_str (argv ! (i + 1))) None of
                      Inl f \<Rightarrow> Inl f
                    | Inr (opt', ec') \<Rightarrow>
                        parse_loop ign argv (i + 2)
                          (st\<lparr>m_options := opts[k := opt'], ec := ec'\<rparr>)))"
    using option_argument_next[where i = i and argv = argv and st = "st\<lparr>m_options := opts\<rparr>"
        and k = k and ign = ign] assms(1,2)
    by (simp cong: sum.case_cong)
  finally show ?thesis .
qed

theorem next_slot_is_argument_witness:
  "parse_loop False [''prog'', ''--port'', ''--other''] 1
     \<lparr>m_options = [option_T T_string ''port'' ''port name'' False,
                   option_base ''other'' ''another flag'' False],
      m_operands = [], ec = None, state = State_options\<rparr>
   = Inr \<lparr>m_options = [(option_T T_string ''port'' ''port name'' False)
                          \<lparr>m_seen := 1, m_value := Some (V_string ''--other'')\<rparr>,
                       option_base ''other'' ''another flag'' False],
          m_operands = [], ec = None, state = State_options\<rparr>"
  using next_slot_is_argument [where i = 1 and argv = "[''prog'', ''--port'', ''--other'']"
      and st = "\<lparr>m_options = [option_T T_string ''port'' ''port name'' False,
                   option_base ''other'' ''another flag'' False],
        m_operands = [], ec = None, state = State_options\<rparr>"
      and name = "''port''" and k = 0 and ign = False
      and opts = "seen 0 [option_T T_string ''port'' ''port name'' False,
                   option_base ''other'' ''another flag'' False]"]
  by (simp add: c_str_def option_T_def option_base_def seen_def set_value_def parse_loop.simps)

section \<open>The default text\<close>

text \<open>
  C8. A valued option declared without a default, with no value assigned, has an absent
  value slot. Its \<^verbatim>\<open>get_default_value\<close> does not return the empty string: it
  dereferences the absent slot, which is undefined. The same call on a flag option, which
  runs the function of the base class, returns the empty string.
\<close>

theorem default_text_without_default:
  "m_has_default (option_T T_string ''name'' ''a name'' False) = False \<and>
   m_value (option_T T_string ''name'' ''a name'' False) = None \<and>
   get_default_value (option_T T_string ''name'' ''a name'' False) = Inl Undefined_behaviour \<and>
   get_default_value (option_base ''verbose,v'' ''more output'' False) = Inr []"
  by (simp add: get_default_value_def option_T_def option_base_def)

section \<open>Round trip through the integer conversion\<close>

lemma digit_facts:
  "is_digit c \<Longrightarrow> 0 \<le> digit_val c \<and> digit_val c < 10 \<and> digit_char (digit_val c) = c \<and>
     (digit_val c = 0 \<longleftrightarrow> c = CHR ''0'')"
proof -
  assume "is_digit c"
  then have rng: "48 \<le> (of_char c :: nat)" "(of_char c :: nat) \<le> 57"
    by (simp_all add: is_digit_def)
  then have "48 + nat (int (of_char c) - 48) = (of_char c :: nat)"
    by simp
  then have dc: "digit_char (digit_val c) = c"
    by (simp only: digit_char_def digit_val_def char_of_char)
  have "c = CHR ''0''" if "(of_char c :: nat) = 48"
  proof -
    from that have "char_of (of_char c :: nat) = char_of (48 :: nat)" by simp
    then show ?thesis by (simp add: char_of_eq_iff del: char_of_quasi_inj)
  qed
  with rng dc show ?thesis
    by (auto simp: digit_val_def)
qed

lemma digits_value_snoc:
  "digits_value acc (ds @ [c]) = 10 * digits_value acc ds + digit_val c"
  by (induction ds arbitrary: acc) simp_all

lemma digits_value_nonneg:
  "list_all is_digit ds \<Longrightarrow> 0 \<le> acc \<Longrightarrow> 0 \<le> digits_value acc ds"
  by (induction ds arbitrary: acc) (simp_all add: digit_facts)

lemma digits_value_zero:
  "list_all is_digit ds \<Longrightarrow> digits_value 0 ds = 0 \<longleftrightarrow> dropWhile (\<lambda>c. c = CHR ''0'') ds = []"
proof (induction ds rule: rev_induct)
  case Nil
  then show ?case by simp
next
  case (snoc c ds)
  then have ds: "list_all is_digit ds" and c: "is_digit c" by simp_all
  have "0 \<le> digits_value 0 ds" "0 \<le> digit_val c"
    using digits_value_nonneg[OF ds order_refl] digit_facts[OF c] by simp_all
  then have "10 * digits_value 0 ds + digit_val c = 0 \<longleftrightarrow> digits_value 0 ds = 0 \<and> digit_val c = 0"
    by arith
  with digit_facts[OF c]
  have "10 * digits_value 0 ds + digit_val c = 0 \<longleftrightarrow> digits_value 0 ds = 0 \<and> c = CHR ''0''"
    by simp
  with snoc.IH[OF ds] show ?case
    by (auto simp: digits_value_snoc dropWhile_append dropWhile_eq_Nil_conv)
qed

lemma digits_of_value:
  "list_all is_digit ds \<Longrightarrow> ds \<noteq> [] \<Longrightarrow> digits_of (digits_value 0 ds) = strip_zeros ds"
proof (induction ds rule: rev_induct)
  case Nil
  then show ?case by simp
next
  case (snoc c ds)
  then have ds: "list_all is_digit ds" and c: "is_digit c" by simp_all
  let ?v = "digits_value 0 ds"
  note d = digit_facts[OF c]
  have v0: "0 \<le> ?v" using digits_value_nonneg[OF ds order_refl] .
  show ?case
  proof (cases "?v = 0")
    case True
    with ds have zeros: "dropWhile (\<lambda>c. c = CHR ''0'') ds = []"
      by (simp add: digits_value_zero)
    then have "strip_zeros (ds @ [c]) = [c]"
      by (auto simp: strip_zeros_def dropWhile_append dropWhile_eq_Nil_conv)
    moreover from True d have "digits_of (digits_value 0 (ds @ [c])) = [c]"
      by (subst digits_of.simps) (simp add: digits_value_snoc)
    ultimately show ?thesis by simp
  next
    case False
    with ds have nz: "dropWhile (\<lambda>c. c = CHR ''0'') ds \<noteq> []"
      by (simp add: digits_value_zero)
    then have "ds \<noteq> []" by auto
    from snoc.IH[OF ds this] nz have ih: "digits_of ?v = dropWhile (\<lambda>c. c = CHR ''0'') ds"
      by (auto simp: strip_zeros_def)
    from nz have "strip_zeros (ds @ [c]) = dropWhile (\<lambda>c. c = CHR ''0'') ds @ [c]"
      by (auto simp: strip_zeros_def dropWhile_append dropWhile_eq_Nil_conv)
    moreover from False v0 d have "digits_of (digits_value 0 (ds @ [c])) = digits_of ?v @ [c]"
      by (subst digits_of.simps) (simp add: digits_value_snoc)
    ultimately show ?thesis using ih by simp
  qed
qed

lemma length_digits_of:
  "n < 10 ^ k \<Longrightarrow> 0 < k \<Longrightarrow> length (digits_of n) \<le> k"
proof (induction k arbitrary: n)
  case 0
  then show ?case by simp
next
  case (Suc k)
  show ?case
  proof (cases "n < 10")
    case True
    then show ?thesis by (subst digits_of.simps) simp
  next
    case False
    with Suc.prems have "0 < k" by (cases k) auto
    moreover from Suc.prems have "n div 10 < 10 ^ k" by simp
    ultimately have "length (digits_of (n div 10)) \<le> k" by (rule Suc.IH[rotated])
    with False show ?thesis by (subst digits_of.simps) simp
  qed
qed


lemma type_range:
  assumes "bits \<le> 64"
  shows "- (10 ^ 20) < min_of (Integral sg bits) \<and> max_of (Integral sg bits) < 10 ^ 20"
proof -
  have "(2::int) ^ (bits - 1) \<le> 2 ^ 64" "(2::int) ^ bits \<le> 2 ^ 64"
    using assms by (intro power_increasing; simp)+
  then show ?thesis by simp
qed

lemma minus_no_digit: "is_digit c \<Longrightarrow> c \<noteq> CHR ''-''"
  by (auto simp: is_digit_def)

lemma to_string_digits:
  assumes "0 \<le> n" and "n < 10 ^ 20"
  shows "to_string (V_arithmetic T (Some n)) = Inr (digits_of n)"
    and "0 < n \<Longrightarrow> to_string (V_arithmetic T (Some (- n))) = Inr (CHR ''-'' # digits_of n)"
proof -
  from assms(2) have "length (digits_of n) \<le> 20"
    by (rule length_digits_of) simp
  with assms(1) show "to_string (V_arithmetic T (Some n)) = Inr (digits_of n)"
    and "0 < n \<Longrightarrow> to_string (V_arithmetic T (Some (- n))) = Inr (CHR ''-'' # digits_of n)"
    by (simp_all add: to_chars_def)
qed

lemma strip_zeros_positive:
  assumes "list_all is_digit ds" and "digits_value 0 ds \<noteq> 0"
  shows "strip_zeros ds \<noteq> ''0''"
proof -
  from assms have nz: "dropWhile (\<lambda>c. c = CHR ''0'') ds \<noteq> []"
    by (simp add: digits_value_zero)
  then have "hd (dropWhile (\<lambda>c. c = CHR ''0'') ds) \<noteq> CHR ''0''"
    by (rule hd_dropWhile)
  with nz show ?thesis
    by (auto simp: strip_zeros_def)
qed

lemma canonical_form_plain:
  assumes "numeric_token T s" and "no_redundancy s"
  shows "canonical_form s = s"
proof -
  define ds where "ds = (if s \<noteq> [] \<and> hd s = CHR ''-'' then tl s else s)"
  have ne: "ds \<noteq> []"
  proof
    assume "ds = []"
    with assms(1) show False
      by (cases "is_signed T"; cases s; auto simp: numeric_token_def ds_def is_digit_def split: if_splits)
  qed
  show ?thesis
  proof (cases "hd ds = CHR ''0''")
    case True
    with ne assms(2) have "s = ''0''"
      by (simp add: no_redundancy_def ds_def)
    then show ?thesis
      by (simp add: canonical_form_def strip_zeros_def)
  next
    case False
    with ne have "dropWhile (\<lambda>c. c = CHR ''0'') ds = ds"
      by (cases ds) auto
    with ne have "strip_zeros ds = ds"
      by (simp add: strip_zeros_def)
    moreover from False ne have "ds \<noteq> ''0''" by auto
    ultimately show ?thesis
      by (cases s) (auto simp: canonical_form_def ds_def split: if_splits)
  qed
qed


lemma digits_of_0: "digits_of 0 = ''0''"
  by (subst digits_of.simps) (simp add: digit_char_def char_of_eq_iff)

text \<open>
  The integer types only: the floating point types, which the arithmetic traits serve as
  well, have no values in this model. For an integer type of at most 64 bits and a valid
  numeric token \<open>s\<close> of that type, \<^verbatim>\<open>set_value\<close> of the arithmetic traits succeeds and
  \<^verbatim>\<open>to_string\<close> of its result is the canonical form of \<open>s\<close>; the canonical form is
  \<open>s\<close> itself when \<open>s\<close> has no redundant leading zeros or sign.
\<close>

theorem integer_round_trip:
  assumes "bits \<le> 64" and "numeric_token (Integral sg bits) s"
  shows "to_string (fst (traits_set_value (T_arithmetic (Integral sg bits)) s e))
           = Inr (canonical_form s) \<and>
         snd (traits_set_value (T_arithmetic (Integral sg bits)) s e) = e \<and>
         (no_redundancy s \<longrightarrow> canonical_form s = s)"
proof -
  let ?T = "Integral sg bits"
  define neg where "neg = (sg \<and> s \<noteq> [] \<and> hd s = CHR ''-'')"
  define ds where "ds = (if neg then tl s else s)"
  define v where "v = digits_value 0 ds"
  define n where "n = (if neg then - v else v)"
  have "ds \<noteq> [] \<and> list_all is_digit ds \<and> min_of ?T \<le> n \<and> n \<le> max_of ?T"
    using assms(2)
    unfolding numeric_token_def Let_def is_signed.simps n_def v_def ds_def neg_def .
  then have ds: "ds \<noteq> []" "list_all is_digit ds"
    and rng: "min_of ?T \<le> n" "n \<le> max_of ?T"
    by simp_all
  from ds(2) have tw: "takeWhile is_digit ds = ds"
    by (simp add: takeWhile_eq_all_conv list_all_iff)
  have "from_chars ?T s None
          = (if takeWhile is_digit ds = [] then (Some invalid_argument, None)
             else if (if neg then - digits_value 0 (takeWhile is_digit ds)
                      else digits_value 0 (takeWhile is_digit ds)) < min_of ?T \<or>
                     max_of ?T < (if neg then - digits_value 0 (takeWhile is_digit ds)
                                  else digits_value 0 (takeWhile is_digit ds))
                  then (Some result_out_of_range, None)
             else (None, Some (if neg then - digits_value 0 (takeWhile is_digit ds)
                               else digits_value 0 (takeWhile is_digit ds))))"
    unfolding from_chars_def Let_def is_signed.simps ds_def neg_def ..
  also have "\<dots> = (None, Some n)"
    unfolding tw v_def[symmetric] n_def[symmetric] using ds(1) rng by (simp del: min_of.simps max_of.simps)
  finally have conv: "from_chars ?T s None = (None, Some n)" .
  then have set: "traits_set_value (T_arithmetic ?T) s e = (V_arithmetic ?T (Some n), e)"
    by simp
  have v0: "0 \<le> v"
    unfolding v_def using ds(2) by (rule digits_value_nonneg) simp
  from rng type_range[OF assms(1), of sg] have "- (10 ^ 20) < n" "n < 10 ^ 20"
    by simp_all
  then have v20: "v < 10 ^ 20"
    by (simp add: n_def split: if_splits)
  have digits: "digits_of v = strip_zeros ds"
    unfolding v_def using ds(2,1) by (rule digits_of_value)
  have "to_string (V_arithmetic ?T (Some n)) = Inr (canonical_form s)"
  proof (cases neg)
    case True
    then have s: "s \<noteq> []" "hd s = CHR ''-''" "tl s = ds"
      by (simp_all add: neg_def ds_def)
    show ?thesis
    proof (cases "v = 0")
      case True
      with \<open>neg\<close> have "n = 0" by (simp add: n_def)
      moreover from True digits have "strip_zeros ds = ''0''"
        by (simp add: digits_of_0)
      ultimately show ?thesis
        using s to_string_digits(1)[of 0 ?T]
        by (simp add: canonical_form_def digits_of_0 del: to_string.simps)
    next
      case False
      with v0 have "0 < v" by simp
      from to_string_digits(2)[OF v0 v20 this]
      have "to_string (V_arithmetic ?T (Some (- v))) = Inr (CHR ''-'' # digits_of v)" .
      moreover from False ds(2) have "strip_zeros ds \<noteq> ''0''"
        unfolding v_def by (intro strip_zeros_positive)
      ultimately show ?thesis
        using s \<open>neg\<close> digits by (simp add: canonical_form_def n_def del: to_string.simps)
    qed
  next
    case False
    then have s: "ds = s" "n = v"
      by (simp_all add: ds_def n_def)
    with ds have "hd s \<noteq> CHR ''-''"
      by (cases s) (auto dest: minus_no_digit)
    with s digits to_string_digits(1)[OF v0 v20, of ?T] show ?thesis
      by (simp add: canonical_form_def del: to_string.simps)
  qed
  with set assms(2) show ?thesis
    by (simp add: canonical_form_plain)
qed

theorem integer_round_trip_example:
  "numeric_token (Integral True 32) ''-0012'' \<and>
   to_string (fst (traits_set_value (T_arithmetic (Integral True 32)) ''-0012'' None)) = Inr ''-12'' \<and>
   numeric_token (Integral True 32) ''8080'' \<and> no_redundancy ''8080'' \<and>
   to_string (fst (traits_set_value (T_arithmetic (Integral True 32)) ''8080'' None)) = Inr ''8080''"
  using integer_round_trip [of 32 True "''-0012''" None]
    integer_round_trip [of 32 True "''8080''" None]
  by (simp add: numeric_token_def no_redundancy_def canonical_form_def strip_zeros_def
        is_digit_def digit_val_def)

end
